theory Spec2Isabelle
  imports Main "HOL-Library.Word"
begin

section \<open>JavaScript strings\<close>

text \<open>
  A JavaScript string is a sequence of UTF-16 code units. The regular expressions of
  \<^verbatim>\<open>extension.ts\<close> carry no \<^verbatim>\<open>u\<close>, \<^verbatim>\<open>i\<close> or \<^verbatim>\<open>m\<close> flag, so they match code unit by code
  unit, \<^verbatim>\<open>[a-z]\<close> is exactly the range 0x61..0x7A, and \<^verbatim>\<open>^\<close> and \<^verbatim>\<open>$\<close> are the two ends of
  the string. \<open>str\<close> turns an ASCII literal into such a sequence.
\<close>

type_synonym code_unit = "16 word"
type_synonym jsstring = "code_unit list"

definition str :: "string \<Rightarrow> jsstring" where
  "str = map of_char"

definition hyphen :: code_unit where
  "hyphen = 0x2D"

definition in_a_z :: "code_unit \<Rightarrow> bool" where
  "in_a_z c = (0x61 \<le> c \<and> c \<le> 0x7A)"

definition in_A_Z :: "code_unit \<Rightarrow> bool" where
  "in_A_Z c = (0x41 \<le> c \<and> c \<le> 0x5A)"

definition in_0_9 :: "code_unit \<Rightarrow> bool" where
  "in_0_9 c = (0x30 \<le> c \<and> c \<le> 0x39)"

definition is_ascii :: "code_unit \<Rightarrow> bool" where
  "is_ascii c = (c < 0x80)"

definition upper_unit :: "code_unit \<Rightarrow> code_unit" where
  "upper_unit c = (if in_a_z c then c - 0x20 else c)"

definition lower_unit :: "code_unit \<Rightarrow> code_unit" where
  "lower_unit c = (if in_A_Z c then c + 0x20 else c)"

text \<open>
  What the program takes from its platform and does not define itself: the two functions of
  Node's \<^verbatim>\<open>path\<close> module that it calls, and the Unicode case mappings of the JavaScript
  engine on strings that are not pure ASCII. On a string of ASCII code units
  \<^verbatim>\<open>toUpperCase\<close> and \<^verbatim>\<open>toLowerCase\<close> map the 26 letters and leave every other
  unit alone; on any other string the result is the platform's (it may even differ in
  length, as for U+00DF).
\<close>

record platform =
  join :: "jsstring \<Rightarrow> jsstring \<Rightarrow> jsstring"
  dirname :: "jsstring \<Rightarrow> jsstring"
  unicodeUpper :: "jsstring \<Rightarrow> jsstring"
  unicodeLower :: "jsstring \<Rightarrow> jsstring"

definition toUpperCase :: "platform \<Rightarrow> jsstring \<Rightarrow> jsstring" where
  "toUpperCase P s = (if list_all is_ascii s then map upper_unit s else unicodeUpper P s)"

definition toLowerCase :: "platform \<Rightarrow> jsstring \<Rightarrow> jsstring" where
  "toLowerCase P s = (if list_all is_ascii s then map lower_unit s else unicodeLower P s)"

section \<open>Errors\<close>

text \<open>
  Everything the program can throw is an instance of \<^verbatim>\<open>Error\<close> with a message: the
  \<^verbatim>\<open>TypeError\<close> of a method call on \<^verbatim>\<open>undefined\<close>, and the system errors of Node's
  \<^verbatim>\<open>fs\<close> module.
\<close>

datatype js_error = TypeError jsstring | SystemError jsstring

primrec message :: "js_error \<Rightarrow> jsstring" where
  "message (TypeError m) = m"
| "message (SystemError m) = m"

definition undefined_toUpperCase :: js_error where
  "undefined_toUpperCase =
     TypeError (str ''Cannot read properties of undefined (reading 'toUpperCase')'')"

section \<open>normalizeComponentName\<close>

record normalized =
  camelCase :: jsstring
  pascalCase :: jsstring

text \<open>
  \<^verbatim>\<open>.replace(/-([a-z])/g, (_, char) => char.toUpperCase())\<close>: the scan goes from left to
  right; at a hyphen followed by a unit of \<^verbatim>\<open>[a-z]\<close> the two units are replaced by the
  upper-cased letter and the scan goes on behind them; any other unit is copied.
\<close>

fun replaceKebab :: "platform \<Rightarrow> jsstring \<Rightarrow> jsstring" where
  "replaceKebab P (c # d # rest) =
     (if c = hyphen \<and> in_a_z d then toUpperCase P [d] @ replaceKebab P rest
      else c # replaceKebab P (d # rest))"
| "replaceKebab P s = s"

text \<open>\<^verbatim>\<open>.replace(/^([A-Z])/, (_, char) => char.toLowerCase())\<close>: at most one match, at index 0.\<close>

fun replacePascal :: "platform \<Rightarrow> jsstring \<Rightarrow> jsstring" where
  "replacePascal P (c # rest) = (if in_A_Z c then toLowerCase P [c] @ rest else c # rest)"
| "replacePascal P [] = []"

text \<open>
  \<^verbatim>\<open>camelCase[0]\<close> of the empty string is \<^verbatim>\<open>undefined\<close>, and the call of
  \<^verbatim>\<open>toUpperCase\<close> on it throws; \<^verbatim>\<open>camelCase.slice(1)\<close> is the rest of the string.
\<close>

definition normalizeComponentName :: "platform \<Rightarrow> jsstring \<Rightarrow> js_error + normalized" where
  "normalizeComponentName P name =
     (let camelCase = replacePascal P (replaceKebab P name)
      in case camelCase of
           [] \<Rightarrow> Inl undefined_toUpperCase
         | c0 # _ \<Rightarrow>
             Inr \<lparr>camelCase = camelCase,
                  pascalCase = toUpperCase P [c0] @ drop 1 camelCase\<rparr>)"

text \<open>
  The name prompt's \<^verbatim>\<open>validateInput\<close>: \<^verbatim>\<open>/^[a-zA-Z][a-zA-Z0-9-]*$/.test(value)\<close>, and
  \<^verbatim>\<open>null\<close> (here \<open>None\<close>) when the value is accepted.
\<close>

definition name_char :: "code_unit \<Rightarrow> bool" where
  "name_char c = (in_a_z c \<or> in_A_Z c \<or> in_0_9 c \<or> c = hyphen)"

fun validNameRegex_test :: "jsstring \<Rightarrow> bool" where
  "validNameRegex_test [] = False"
| "validNameRegex_test (c # rest) = ((in_a_z c \<or> in_A_Z c) \<and> list_all name_char rest)"

definition validateInput :: "jsstring \<Rightarrow> jsstring option" where
  "validateInput v =
     (if validNameRegex_test v then None
      else Some (str ''Component name must start with a letter and contain only letters, numbers, or hyphens.''))"

section \<open>The file system and the notifications\<close>

text \<open>
  The host's file system is a map from paths to nodes. The handler changes the world through
  four calls only; every call that takes effect is appended to \<open>trace\<close>. A call of
  \<^verbatim>\<open>fs\<close> can fail for reasons of the environment (permissions, a missing parent, a full
  disk): \<open>refuses\<close> gives, for the present nodes and a call, the message of the system
  error thrown then. A failed call changes nothing.
\<close>

datatype node = Dir | File jsstring

datatype event =
    MkdirSync jsstring
  | WriteFileSync jsstring jsstring
  | ShowInformationMessage jsstring
  | ShowErrorMessage jsstring

record world =
  nodes :: "jsstring \<rightharpoonup> node"
  refuses :: "(jsstring \<rightharpoonup> node) \<Rightarrow> event \<Rightarrow> jsstring option"
  trace :: "event list"

datatype completion = Normal | Throw js_error

definition andThen ::
  "completion \<times> world \<Rightarrow> (world \<Rightarrow> completion \<times> world) \<Rightarrow> completion \<times> world" where
  "andThen r k = (case r of (Normal, w) \<Rightarrow> k w | (Throw e, w) \<Rightarrow> (Throw e, w))"

text \<open>A string between two apostrophes, as the messages have paths and names.\<close>

definition quoted :: "jsstring \<Rightarrow> jsstring" where
  "quoted p = 0x27 # p @ [0x27]"

definition existsSync :: "world \<Rightarrow> jsstring \<Rightarrow> bool" where
  "existsSync w p = (nodes w p \<noteq> None)"

text \<open>\<^verbatim>\<open>fs.mkdirSync(p)\<close> without options: an existing path is \<^verbatim>\<open>EEXIST\<close>.\<close>

definition mkdirSync :: "jsstring \<Rightarrow> world \<Rightarrow> completion \<times> world" where
  "mkdirSync p w =
     (case refuses w (nodes w) (MkdirSync p) of
        Some m \<Rightarrow> (Throw (SystemError m), w)
      | None \<Rightarrow>
          (case nodes w p of
             Some n \<Rightarrow>
               (Throw (SystemError (str ''EEXIST: file already exists, mkdir '' @ quoted p)), w)
           | None \<Rightarrow>
               (Normal, w\<lparr>nodes := (nodes w)(p \<mapsto> Dir), trace := trace w @ [MkdirSync p]\<rparr>)))"

text \<open>
  \<^verbatim>\<open>fs.writeFileSync(p, data)\<close> with the default flag \<^verbatim>\<open>'w'\<close>: the file is created or
  truncated and replaced; a directory at \<open>p\<close> is \<^verbatim>\<open>EISDIR\<close>.
\<close>

definition writeFileSync :: "jsstring \<Rightarrow> jsstring \<Rightarrow> world \<Rightarrow> completion \<times> world" where
  "writeFileSync p data w =
     (case refuses w (nodes w) (WriteFileSync p data) of
        Some m \<Rightarrow> (Throw (SystemError m), w)
      | None \<Rightarrow>
          (case nodes w p of
             Some Dir \<Rightarrow>
               (Throw (SystemError (str ''EISDIR: illegal operation on a directory, open '' @ quoted p)), w)
           | _ \<Rightarrow>
               (Normal, w\<lparr>nodes := (nodes w)(p \<mapsto> File data),
                           trace := trace w @ [WriteFileSync p data]\<rparr>)))"

definition showInformationMessage :: "jsstring \<Rightarrow> world \<Rightarrow> completion \<times> world" where
  "showInformationMessage m w = (Normal, w\<lparr>trace := trace w @ [ShowInformationMessage m]\<rparr>)"

definition showErrorMessage :: "jsstring \<Rightarrow> world \<Rightarrow> completion \<times> world" where
  "showErrorMessage m w = (Normal, w\<lparr>trace := trace w @ [ShowErrorMessage m]\<rparr>)"

section \<open>The command handler\<close>

text \<open>
  What one run of the command receives: the optional \<^verbatim>\<open>uri\<close> argument (its \<^verbatim>\<open>fsPath\<close>),
  the path of the active editor's document, the paths of the workspace folders, and the values
  the two prompts resolve to (\<open>None\<close> is \<^verbatim>\<open>undefined\<close>, a dismissed prompt).
\<close>

record item =
  label :: jsstring
  picked :: bool

record invocation =
  uri :: "jsstring option"
  activeTextEditor :: "jsstring option"
  workspaceFolders :: "jsstring list option"
  inputBox :: "jsstring option"
  quickPick :: "item list option"

text \<open>The items passed to \<^verbatim>\<open>showQuickPick\<close>.\<close>

definition quickPickItems :: "item list" where
  "quickPickItems =
     map (\<lambda>l. \<lparr>label = l, picked = (l \<noteq> str ''CSS'')\<rparr>) [str ''JS'', str ''HTML'', str ''CSS'']"

definition truthy :: "jsstring option \<Rightarrow> bool" where
  "truthy v = (case v of None \<Rightarrow> False | Some s \<Rightarrow> s \<noteq> [])"

definition firstWorkspaceFolder :: "invocation \<Rightarrow> jsstring option" where
  "firstWorkspaceFolder i =
     (case workspaceFolders i of None \<Rightarrow> None | Some [] \<Rightarrow> None | Some (f # fs) \<Rightarrow> Some f)"

text \<open>Step 1; \<open>None\<close> is the last branch, where no target directory is found.\<close>

definition targetDirOf :: "platform \<Rightarrow> invocation \<Rightarrow> jsstring option" where
  "targetDirOf P i =
     (if truthy (uri i) then uri i
      else if activeTextEditor i \<noteq> None then map_option (dirname P) (activeTextEditor i)
      else if truthy (firstWorkspaceFolder i) then firstWorkspaceFolder i
      else None)"

definition jsTemplate :: "jsstring \<Rightarrow> jsstring" where
  "jsTemplate pascalCaseName =
     str ''import { LightningElement } from 'lwc';\<newline>\<newline>export default class ''
     @ pascalCaseName @ str '' extends LightningElement {}''"

definition htmlTemplate :: jsstring where
  "htmlTemplate = str ''<template>\<newline>\<newline></template>''"

text \<open>The callback of \<^verbatim>\<open>fileOptions.forEach\<close>.\<close>

definition createFile ::
  "platform \<Rightarrow> jsstring \<Rightarrow> jsstring \<Rightarrow> jsstring \<Rightarrow> item \<Rightarrow> world \<Rightarrow> completion \<times> world" where
  "createFile P componentDir camelCaseName pascalCaseName file w =
     (let filePath = join P componentDir (camelCaseName @ str ''.'' @ toLowerCase P (label file))
      in if label file = str ''JS'' then writeFileSync filePath (jsTemplate pascalCaseName) w
         else if label file = str ''HTML'' then writeFileSync filePath htmlTemplate w
         else if label file = str ''CSS'' then writeFileSync filePath [] w
         else (Normal, w))"

fun forEach ::
  "(item \<Rightarrow> world \<Rightarrow> completion \<times> world) \<Rightarrow> item list \<Rightarrow> world \<Rightarrow> completion \<times> world" where
  "forEach f [] w = (Normal, w)"
| "forEach f (x # xs) w = andThen (f x w) (forEach f xs)"

text \<open>The body of the \<^verbatim>\<open>try\<close> block; each \<^verbatim>\<open>return\<close> is a normal completion.\<close>

definition tryBlock :: "platform \<Rightarrow> invocation \<Rightarrow> world \<Rightarrow> completion \<times> world" where
  "tryBlock P i w =
     (case targetDirOf P i of
        None \<Rightarrow> showErrorMessage (str ''No target directory found.'') w
      | Some targetDir \<Rightarrow>
          (case inputBox i of
             None \<Rightarrow> (Normal, w)
           | Some rawName \<Rightarrow>
               if rawName = [] then (Normal, w)
               else
                 (case normalizeComponentName P rawName of
                    Inl err \<Rightarrow> (Throw err, w)
                  | Inr normalizedName \<Rightarrow>
                      (let camelCaseName = camelCase normalizedName;
                           pascalCaseName = pascalCase normalizedName
                       in case quickPick i of
                            None \<Rightarrow> (Normal, w)
                          | Some fileOptions \<Rightarrow>
                              if fileOptions = [] then (Normal, w)
                              else
                                (let componentDir = join P targetDir camelCaseName
                                 in andThen
                                      (if existsSync w componentDir then (Normal, w)
                                       else mkdirSync componentDir w)
                                      (\<lambda>w1. andThen
                                         (forEach (createFile P componentDir camelCaseName pascalCaseName)
                                            fileOptions w1)
                                         (showInformationMessage
                                            (str ''LWC component '' @ quoted camelCaseName
                                             @ str '' created in '' @ quoted componentDir
                                             @ str ''.''))))))))"

text \<open>The handler: the \<^verbatim>\<open>try\<close> block under its \<^verbatim>\<open>catch\<close>.\<close>

definition createLWC :: "platform \<Rightarrow> invocation \<Rightarrow> world \<Rightarrow> completion \<times> world" where
  "createLWC P i w =
     (case tryBlock P i w of
        (Throw err, w1) \<Rightarrow> showErrorMessage (str ''Error creating LWC: '' @ message err) w1
      | (Normal, w1) \<Rightarrow> (Normal, w1))"

section \<open>Notions of the statements\<close>

text \<open>
  Kebab-case in the words of the specification: non-empty words of lower-case letters, joined
  by single hyphens; a word capitalized; the camel-case form of a list of words, which is the
  first word followed by the others capitalized.
\<close>

definition lower_word :: "jsstring \<Rightarrow> bool" where
  "lower_word w = (w \<noteq> [] \<and> list_all in_a_z w)"

fun kebabCase :: "jsstring list \<Rightarrow> jsstring" where
  "kebabCase [] = []"
| "kebabCase [w] = w"
| "kebabCase (w # ws) = w @ hyphen # kebabCase ws"

definition capitalized :: "jsstring \<Rightarrow> jsstring" where
  "capitalized w = (case w of [] \<Rightarrow> [] | c # cs \<Rightarrow> upper_unit c # cs)"

definition camelOf :: "jsstring list \<Rightarrow> jsstring" where
  "camelOf ws = (case ws of [] \<Rightarrow> [] | w # rest \<Rightarrow> w @ concat (map capitalized rest))"

text \<open>
  The path and the content that \<open>createFile\<close> gives to \<^verbatim>\<open>writeFileSync\<close> for an item, the
  write as an event, the items whose label is one of the three passed to the prompt, and the
  text of the final notification.
\<close>

definition filePathOf :: "platform \<Rightarrow> jsstring \<Rightarrow> jsstring \<Rightarrow> item \<Rightarrow> jsstring" where
  "filePathOf P componentDir camelCaseName file =
     join P componentDir (camelCaseName @ str ''.'' @ toLowerCase P (label file))"

definition contentOf :: "jsstring \<Rightarrow> item \<Rightarrow> jsstring" where
  "contentOf pascalCaseName file =
     (if label file = str ''JS'' then jsTemplate pascalCaseName
      else if label file = str ''HTML'' then htmlTemplate
      else [])"

definition writeOf :: "platform \<Rightarrow> jsstring \<Rightarrow> jsstring \<Rightarrow> jsstring \<Rightarrow> item \<Rightarrow> event" where
  "writeOf P componentDir camelCaseName pascalCaseName file =
     WriteFileSync (filePathOf P componentDir camelCaseName file) (contentOf pascalCaseName file)"

definition offered :: "item \<Rightarrow> bool" where
  "offered file = (label file \<in> set (map label quickPickItems))"

definition successMessage :: "jsstring \<Rightarrow> jsstring \<Rightarrow> jsstring" where
  "successMessage camelCaseName componentDir =
     str ''LWC component '' @ quoted camelCaseName @ str '' created in '' @ quoted componentDir
     @ str ''.''"

text \<open>
  What a run leaves behind. \<open>extends w evs w'\<close>: the trace of \<open>w'\<close> is that of \<open>w\<close> followed
  by \<open>evs\<close>, and its nodes are those of \<open>w\<close> under the effect of every event of \<open>evs\<close>, in
  order; nothing is undone.
\<close>

primrec effect :: "event \<Rightarrow> (jsstring \<rightharpoonup> node) \<Rightarrow> (jsstring \<rightharpoonup> node)" where
  "effect (MkdirSync p) m = m(p \<mapsto> Dir)"
| "effect (WriteFileSync p d) m = m(p \<mapsto> File d)"
| "effect (ShowInformationMessage s) m = m"
| "effect (ShowErrorMessage s) m = m"

primrec isNotification :: "event \<Rightarrow> bool" where
  "isNotification (MkdirSync p) = False"
| "isNotification (WriteFileSync p d) = False"
| "isNotification (ShowInformationMessage s) = True"
| "isNotification (ShowErrorMessage s) = True"

definition extends :: "world \<Rightarrow> event list \<Rightarrow> world \<Rightarrow> bool" where
  "extends w evs w' =
     (trace w' = trace w @ evs \<and> nodes w' = foldl (\<lambda>m e. effect e m) (nodes w) evs
      \<and> refuses w' = refuses w)"

section \<open>Concrete runs\<close>

text \<open>
  A platform, invocations and worlds on which the theorems are run: paths joined with a
  slash, a command started on the folder \<^verbatim>\<open>/ws\<close>, an empty disk, a disk that refuses every
  write of a file, and a disk that already holds the component's directory and markup file.
  The case mappings beyond ASCII are not reached by these runs.
\<close>

definition posix :: platform where
  "posix = \<lparr>join = (\<lambda>a b. a @ str ''/'' @ b),
            dirname = (\<lambda>p. rev (drop 1 (dropWhile (\<lambda>c. c \<noteq> 0x2F) (rev p)))),
            unicodeUpper = (\<lambda>s. s),
            unicodeLower = (\<lambda>s. s)\<rparr>"

definition htmlItem :: item where
  "htmlItem = \<lparr>label = str ''HTML'', picked = True\<rparr>"

definition jsItem :: item where
  "jsItem = \<lparr>label = str ''JS'', picked = True\<rparr>"

definition demo :: "jsstring option \<Rightarrow> item list option \<Rightarrow> invocation" where
  "demo name selection =
     \<lparr>uri = Some (str ''/ws''), activeTextEditor = None, workspaceFolders = None,
      inputBox = name, quickPick = selection\<rparr>"

definition emptyDisk :: world where
  "emptyDisk = \<lparr>nodes = Map.empty, refuses = (\<lambda>ns ev. None), trace = []\<rparr>"

definition lockedDisk :: world where
  "lockedDisk =
     \<lparr>nodes = Map.empty,
      refuses = (\<lambda>ns ev. case ev of WriteFileSync p d \<Rightarrow> Some (str ''EACCES: permission denied'')
                                   | _ \<Rightarrow> None),
      trace = []\<rparr>"

definition usedDisk :: world where
  "usedDisk =
     \<lparr>nodes = [str ''/ws/x'' \<mapsto> Dir, str ''/ws/x/x.html'' \<mapsto> File (str ''old'')],
      refuses = (\<lambda>ns ev. None), trace = []\<rparr>"

section \<open>Character classes\<close>

lemma in_a_z_unat: "in_a_z c \<longleftrightarrow> 97 \<le> unat c \<and> unat c \<le> 122"
  by (simp add: in_a_z_def word_le_nat_alt)

lemma in_A_Z_unat: "in_A_Z c \<longleftrightarrow> 65 \<le> unat c \<and> unat c \<le> 90"
  by (simp add: in_A_Z_def word_le_nat_alt)

lemma in_0_9_unat: "in_0_9 c \<longleftrightarrow> 48 \<le> unat c \<and> unat c \<le> 57"
  by (simp add: in_0_9_def word_le_nat_alt)

lemma is_ascii_unat: "is_ascii c \<longleftrightarrow> unat c < 128"
  by (simp add: is_ascii_def word_less_nat_alt)

lemma hyphen_unat: "c = hyphen \<longleftrightarrow> unat c = 45"
  by (simp add: hyphen_def word_unat_eq_iff)

lemma in_a_z_ascii: "in_a_z c \<Longrightarrow> is_ascii c"
  by (simp add: in_a_z_unat is_ascii_unat)

lemma in_A_Z_ascii: "in_A_Z c \<Longrightarrow> is_ascii c"
  by (simp add: in_A_Z_unat is_ascii_unat)

lemma in_a_z_not_hyphen: "in_a_z c \<Longrightarrow> c \<noteq> hyphen"
  by (simp add: in_a_z_unat hyphen_unat)

lemma in_A_Z_not_hyphen: "in_A_Z c \<Longrightarrow> c \<noteq> hyphen"
  by (simp add: in_A_Z_unat hyphen_unat)

lemma in_0_9_not_hyphen: "in_0_9 c \<Longrightarrow> c \<noteq> hyphen"
  by (simp add: in_0_9_unat hyphen_unat)

lemma in_a_z_not_A_Z: "in_a_z c \<Longrightarrow> \<not> in_A_Z c"
  by (simp add: in_a_z_unat in_A_Z_unat)

lemma in_0_9_not_a_z: "in_0_9 c \<Longrightarrow> \<not> in_a_z c"
  by (simp add: in_a_z_unat in_0_9_unat)

lemma in_A_Z_not_a_z: "in_A_Z c \<Longrightarrow> \<not> in_a_z c"
  by (simp add: in_a_z_unat in_A_Z_unat)

lemma not_in_a_z_hyphen: "\<not> in_a_z hyphen"
  using in_a_z_not_hyphen by blast

lemma unat_upper: "in_a_z c \<Longrightarrow> unat (upper_unit c) = unat c - 32"
  by (simp add: upper_unit_def in_a_z_unat unat_sub word_le_nat_alt)

lemma unat_lower: "in_A_Z c \<Longrightarrow> unat (lower_unit c) = unat c + 32"
  by (simp add: lower_unit_def in_A_Z_unat unat_word_ariths)

lemma upper_in_A_Z: "in_a_z c \<Longrightarrow> in_A_Z (upper_unit c)"
  using unat_upper [of c] unfolding in_a_z_unat in_A_Z_unat by arith

lemma lower_in_a_z: "in_A_Z c \<Longrightarrow> in_a_z (lower_unit c)"
  using unat_lower [of c] unfolding in_a_z_unat in_A_Z_unat by arith

lemma lower_unit_letter: "in_a_z c \<or> in_A_Z c \<Longrightarrow> in_a_z (lower_unit c)"
  using lower_in_a_z [of c] in_a_z_not_A_Z [of c] by (auto simp add: lower_unit_def)

lemma toUpperCase_ascii: "is_ascii c \<Longrightarrow> toUpperCase P [c] = [upper_unit c]"
  by (simp add: toUpperCase_def)

lemma toLowerCase_ascii: "is_ascii c \<Longrightarrow> toLowerCase P [c] = [lower_unit c]"
  by (simp add: toLowerCase_def)

section \<open>The two replacements\<close>

lemma replaceKebab_match:
  "in_a_z d \<Longrightarrow> replaceKebab P (hyphen # d # s) = upper_unit d # replaceKebab P s"
  by (simp add: toUpperCase_ascii in_a_z_ascii)

lemma replaceKebab_copy:
  "c \<noteq> hyphen \<Longrightarrow> replaceKebab P (c # s) = c # replaceKebab P s"
  by (cases s) simp_all

lemma replaceKebab_keep:
  "\<not> in_a_z d \<Longrightarrow> replaceKebab P (c # d # s) = c # replaceKebab P (d # s)"
  by simp

lemma replaceKebab_Nil_iff: "replaceKebab P s = [] \<longleftrightarrow> s = []"
  by (induction P s rule: replaceKebab.induct) (auto simp add: toUpperCase_ascii in_a_z_ascii)

lemma replacePascal_Nil_iff: "replacePascal P s = [] \<longleftrightarrow> s = []"
  by (cases s) (auto simp add: toLowerCase_ascii in_A_Z_ascii)

lemma replaceKebab_append:
  "\<not> in_a_z c \<Longrightarrow> replaceKebab P (xs @ c # ys) = replaceKebab P xs @ replaceKebab P (c # ys)"
  by (induction P xs rule: replaceKebab.induct) simp_all

lemma replacePascal_append:
  "s \<noteq> [] \<Longrightarrow> replacePascal P (s @ t) = replacePascal P s @ t"
  by (cases s) simp_all

lemma replaceKebab_lower_word:
  "list_all in_a_z w \<Longrightarrow> replaceKebab P (w @ s) = w @ replaceKebab P s"
  by (induction w) (simp_all add: replaceKebab_copy in_a_z_not_hyphen)

lemma capitalized_Cons: "capitalized (c # cs) = upper_unit c # cs"
  by (simp add: capitalized_def)

lemma kebabCase_Cons_Cons: "kebabCase ((d # ds) # vs) = d # kebabCase (ds # vs)"
  by (cases vs) simp_all

lemma replaceKebab_kebabCase:
  "list_all in_a_z w \<Longrightarrow> list_all lower_word ws \<Longrightarrow>
   replaceKebab P (kebabCase (w # ws)) = w @ concat (map capitalized ws)"
proof (induction ws arbitrary: w)
  case Nil
  then show ?case
    using replaceKebab_lower_word [of w P "[]"] by simp
next
  case (Cons v vs)
  from Cons.prems obtain d ds where v: "v = d # ds" and d: "in_a_z d" and ds: "list_all in_a_z ds"
    by (cases v) (auto simp add: lower_word_def)
  have vs: "list_all lower_word vs" using Cons.prems by simp
  have "replaceKebab P (kebabCase (w # v # vs)) = w @ replaceKebab P (hyphen # d # kebabCase (ds # vs))"
    using replaceKebab_lower_word [OF Cons.prems(1)] by (simp add: v kebabCase_Cons_Cons)
  also have "\<dots> = w @ upper_unit d # replaceKebab P (kebabCase (ds # vs))"
    by (simp only: replaceKebab_match [OF d])
  also have "\<dots> = w @ upper_unit d # ds @ concat (map capitalized vs)"
    by (simp only: Cons.IH [OF ds vs])
  finally show ?case by (simp add: v capitalized_Cons)
qed

lemma capitalized_lower_word: "lower_word v \<Longrightarrow> hyphen \<notin> set (capitalized v)"
  by (cases v)
     (auto simp add: capitalized_def lower_word_def list_all_iff
           dest: in_a_z_not_hyphen in_A_Z_not_hyphen [OF upper_in_A_Z])

section \<open>Name normalization\<close>

lemma normalize_Cons:
  "normalizeComponentName P name =
     (case replacePascal P (replaceKebab P name) of
        [] \<Rightarrow> Inl undefined_toUpperCase
      | c0 # cs \<Rightarrow> Inr \<lparr>camelCase = c0 # cs, pascalCase = toUpperCase P [c0] @ cs\<rparr>)"
  by (simp add: normalizeComponentName_def Let_def split: list.splits)

lemma normalize_Nil: "normalizeComponentName P [] = Inl undefined_toUpperCase"
  by (simp add: normalize_Cons)

lemma normalize_nonempty:
  assumes "name \<noteq> []"
  shows "\<exists>c cs. normalizeComponentName P name =
           Inr \<lparr>camelCase = c # cs, pascalCase = toUpperCase P [c] @ cs\<rparr>"
proof -
  from assms have "replacePascal P (replaceKebab P name) \<noteq> []"
    by (simp add: replacePascal_Nil_iff replaceKebab_Nil_iff)
  then obtain c cs where "replacePascal P (replaceKebab P name) = c # cs"
    by (cases "replacePascal P (replaceKebab P name)") auto
  then show ?thesis by (simp add: normalize_Cons)
qed

lemma normalize_valid:
  assumes "validNameRegex_test (c # rest)"
  shows "normalizeComponentName P (c # rest) =
           Inr \<lparr>camelCase = lower_unit c # replaceKebab P rest,
                pascalCase = upper_unit (lower_unit c) # replaceKebab P rest\<rparr>"
proof -
  from assms have letter: "in_a_z c \<or> in_A_Z c" by simp
  then have nh: "c \<noteq> hyphen" using in_a_z_not_hyphen in_A_Z_not_hyphen by blast
  have k: "replaceKebab P (c # rest) = c # replaceKebab P rest"
    by (rule replaceKebab_copy [OF nh])
  have p: "replacePascal P (c # replaceKebab P rest) = lower_unit c # replaceKebab P rest"
    using letter in_a_z_not_A_Z [of c]
    by (auto simp add: toLowerCase_ascii in_A_Z_ascii lower_unit_def)
  have a: "is_ascii (lower_unit c)"
    by (rule in_a_z_ascii [OF lower_unit_letter [OF letter]])
  show ?thesis
    unfolding normalize_Cons k p by (simp add: toUpperCase_ascii a)
qed

lemma normalize_append:
  assumes "normalizeComponentName P xs = Inr rx"
  shows "normalizeComponentName P (xs @ c # ys) =
           (if in_a_z c then normalizeComponentName P (xs @ c # ys)
            else Inr \<lparr>camelCase = camelCase rx @ replaceKebab P (c # ys),
                     pascalCase = pascalCase rx @ replaceKebab P (c # ys)\<rparr>)"
proof (cases "in_a_z c")
  case True
  then show ?thesis by simp
next
  case False
  from assms have ne: "xs \<noteq> []" by (auto simp add: normalize_Nil)
  then have "replacePascal P (replaceKebab P xs) \<noteq> []"
    by (simp add: replacePascal_Nil_iff replaceKebab_Nil_iff)
  then obtain a as where a: "replacePascal P (replaceKebab P xs) = a # as"
    by (cases "replacePascal P (replaceKebab P xs)") auto
  have rx: "rx = \<lparr>camelCase = a # as, pascalCase = toUpperCase P [a] @ as\<rparr>"
    using assms by (simp add: normalize_Cons a)
  have "replacePascal P (replaceKebab P (xs @ c # ys)) = a # as @ replaceKebab P (c # ys)"
    using ne by (simp add: replaceKebab_append [OF False] replacePascal_append replaceKebab_Nil_iff a)
  then show ?thesis using False by (simp add: normalize_Cons rx)
qed

text \<open>
  Claim C1. For a kebab-case name made of the non-empty lower-case words \<open>w # ws\<close>,
  \<open>normalizeComponentName\<close> returns as \<open>camelCase\<close> the first word followed by the other
  words capitalized, without any hyphen and with a lower-case first letter, and as
  \<open>pascalCase\<close> the same string with its first letter in upper case. The run below is
  \<^verbatim>\<open>"my-component"\<close>, which gives \<^verbatim>\<open>"myComponent"\<close> and \<^verbatim>\<open>"MyComponent"\<close>.
\<close>

theorem kebab_to_camel_and_pascal:
  assumes "list_all lower_word (w # ws)"
  shows "normalizeComponentName P (kebabCase (w # ws)) =
           Inr \<lparr>camelCase = camelOf (w # ws), pascalCase = capitalized (camelOf (w # ws))\<rparr>
         \<and> hyphen \<notin> set (camelOf (w # ws))
         \<and> in_a_z (hd (camelOf (w # ws)))
         \<and> in_A_Z (hd (capitalized (camelOf (w # ws))))"
proof -
  from assms obtain c cs where w: "w = c # cs" and c: "in_a_z c" and cs: "list_all in_a_z cs"
    by (cases w) (auto simp add: lower_word_def)
  have ws: "list_all lower_word ws" using assms by simp
  have k: "replaceKebab P (kebabCase (w # ws)) = c # cs @ concat (map capitalized ws)"
    using replaceKebab_kebabCase [of w ws P] c cs ws by (simp add: w)
  have p: "replacePascal P (c # cs @ concat (map capitalized ws)) = c # cs @ concat (map capitalized ws)"
    using in_a_z_not_A_Z [OF c] by simp
  have n: "normalizeComponentName P (kebabCase (w # ws)) =
           Inr \<lparr>camelCase = camelOf (w # ws), pascalCase = capitalized (camelOf (w # ws))\<rparr>"
    unfolding normalize_Cons k p
    by (simp add: camelOf_def capitalized_Cons w toUpperCase_ascii in_a_z_ascii [OF c])
  have h: "hyphen \<notin> set (camelOf (w # ws))"
    using assms capitalized_lower_word
    by (auto simp add: camelOf_def lower_word_def list_all_iff dest: in_a_z_not_hyphen)
  have l: "in_a_z (hd (camelOf (w # ws)))"
    by (simp add: camelOf_def w c)
  have u: "in_A_Z (hd (capitalized (camelOf (w # ws))))"
    by (simp add: camelOf_def capitalized_Cons w upper_in_A_Z [OF c])
  from n h l u show ?thesis by simp
qed

theorem kebab_to_camel_and_pascal_witness:
  "list_all lower_word [str ''my'', str ''component'']
   \<and> kebabCase [str ''my'', str ''component''] = str ''my-component''
   \<and> normalizeComponentName posix (str ''my-component'') =
         Inr \<lparr>camelCase = str ''myComponent'', pascalCase = str ''MyComponent''\<rparr>"
proof -
  have h: "list_all lower_word [str ''my'', str ''component'']"
    by (simp add: lower_word_def in_a_z_def str_def)
  have k: "kebabCase [str ''my'', str ''component''] = str ''my-component''"
    by (simp add: str_def hyphen_def)
  have c: "camelOf [str ''my'', str ''component''] = str ''myComponent''"
    by (simp add: camelOf_def capitalized_def upper_unit_def in_a_z_def str_def)
  have p: "capitalized (str ''myComponent'') = str ''MyComponent''"
    by (simp add: capitalized_def upper_unit_def in_a_z_def str_def)
  show ?thesis
    using kebab_to_camel_and_pascal [OF h, of posix] h by (simp only: k c p simp_thms)
qed

text \<open>
  Claim C2. For every non-empty name, \<open>pascalCase\<close> is \<open>camelCase\<close> with its first code
  unit replaced by that unit's upper-case form, and every later unit is the same. For a name
  accepted by the prompt's regular expression both strings are non-empty, have the same
  length, and differ in their first letter only, lower case in one and upper case in the
  other.
\<close>

theorem pascalCase_is_camelCase_first_upper:
  "(name \<noteq> [] \<longrightarrow>
      (\<exists>c cs. normalizeComponentName P name =
         Inr \<lparr>camelCase = c # cs, pascalCase = toUpperCase P [c] @ cs\<rparr>))
   \<and> (validNameRegex_test name \<longrightarrow>
      (\<exists>c cs. normalizeComponentName P name =
         Inr \<lparr>camelCase = c # cs, pascalCase = upper_unit c # cs\<rparr>
         \<and> in_a_z c \<and> in_A_Z (upper_unit c)))"
proof (intro conjI impI)
  assume "name \<noteq> []"
  then show "\<exists>c cs. normalizeComponentName P name =
         Inr \<lparr>camelCase = c # cs, pascalCase = toUpperCase P [c] @ cs\<rparr>"
    by (rule normalize_nonempty)
next
  assume v: "validNameRegex_test name"
  then obtain c rest where n: "name = c # rest" by (cases name) auto
  from v n have l: "in_a_z (lower_unit c)" by (simp add: lower_unit_letter)
  show "\<exists>c cs. normalizeComponentName P name =
         Inr \<lparr>camelCase = c # cs, pascalCase = upper_unit c # cs\<rparr>
         \<and> in_a_z c \<and> in_A_Z (upper_unit c)"
    using normalize_valid [of c rest P] v l upper_in_A_Z [OF l] by (simp add: n)
qed

theorem pascalCase_is_camelCase_first_upper_witness:
  "str ''MyComponent'' \<noteq> [] \<and> validNameRegex_test (str ''MyComponent'')
   \<and> normalizeComponentName posix (str ''MyComponent'') =
         Inr \<lparr>camelCase = str ''myComponent'', pascalCase = str ''MyComponent''\<rparr>"
proof -
  have v: "validNameRegex_test (str ''MyComponent'')"
    by (simp add: str_def name_char_def in_a_z_def in_A_Z_def in_0_9_def hyphen_def)
  have e: "str ''MyComponent'' \<noteq> []" by (simp add: str_def)
  from pascalCase_is_camelCase_first_upper [of "str ''MyComponent''" posix] v e
  obtain c cs where r: "normalizeComponentName posix (str ''MyComponent'') =
         Inr \<lparr>camelCase = c # cs, pascalCase = upper_unit c # cs\<rparr>"
    by blast
  have "normalizeComponentName posix (str ''MyComponent'') =
         Inr \<lparr>camelCase = str ''myComponent'', pascalCase = str ''MyComponent''\<rparr>"
    by (simp add: normalizeComponentName_def str_def toUpperCase_def toLowerCase_def
        is_ascii_def upper_unit_def lower_unit_def in_a_z_def in_A_Z_def hyphen_def)
  with v e r show ?thesis by simp
qed

text \<open>
  Claim C6. For a name accepted by \<^verbatim>\<open>/^[a-zA-Z][a-zA-Z0-9-]*$/\<close> the first character of
  \<open>camelCase\<close> is the lower-case form of the name's first character: an upper-case letter
  is lowered, a lower-case letter is kept, and in both cases the result is a lower-case
  letter. The run below is \<^verbatim>\<open>"MyComponent"\<close>, which gives \<^verbatim>\<open>"myComponent"\<close>.
\<close>

theorem camelCase_first_is_lowercase:
  assumes "validNameRegex_test (c # rest)"
  shows "\<exists>cs. normalizeComponentName P (c # rest) =
           Inr \<lparr>camelCase = lower_unit c # cs, pascalCase = upper_unit (lower_unit c) # cs\<rparr>
         \<and> in_a_z (lower_unit c)
         \<and> lower_unit c = (if in_A_Z c then c + 0x20 else c)"
  using normalize_valid [OF assms, of P] assms lower_unit_letter [of c]
  by (auto simp add: lower_unit_def)

theorem camelCase_first_is_lowercase_witness:
  "validNameRegex_test (of_char CHR ''M'' # str ''yComponent'')
   \<and> in_A_Z (of_char CHR ''M'')
   \<and> (\<exists>cs. normalizeComponentName posix (of_char CHR ''M'' # str ''yComponent'') =
         Inr \<lparr>camelCase = of_char CHR ''m'' # cs, pascalCase = of_char CHR ''M'' # cs\<rparr>)
   \<and> camelCase (projr (normalizeComponentName posix (str ''MyComponent''))) = str ''myComponent''"
proof -
  have v: "validNameRegex_test (of_char CHR ''M'' # str ''yComponent'')"
    by (simp add: str_def name_char_def in_a_z_def in_A_Z_def in_0_9_def hyphen_def)
  have u: "in_A_Z (of_char CHR ''M'')" by (simp add: in_A_Z_def)
  have l: "lower_unit (of_char CHR ''M'') = of_char CHR ''m''"
          "upper_unit (of_char CHR ''m'') = of_char CHR ''M''"
    by (simp_all add: lower_unit_def upper_unit_def in_A_Z_def in_a_z_def)
  have n: "camelCase (projr (normalizeComponentName posix (str ''MyComponent''))) = str ''myComponent''"
    by (simp add: normalizeComponentName_def str_def toUpperCase_def toLowerCase_def
        is_ascii_def upper_unit_def lower_unit_def in_a_z_def in_A_Z_def hyphen_def)
  show ?thesis
    using camelCase_first_is_lowercase [OF v, of posix] v u n unfolding l by blast
qed

text \<open>
  Claim C7. What happens to a hyphen that follows a non-empty prefix \<open>xs\<close> depends on the
  next unit \<open>d\<close> only. Before a lower-case letter the hyphen is removed and the letter is
  put in upper case. Before a digit or an upper-case letter the hyphen and \<open>d\<close> stay as
  they are, in \<open>camelCase\<close> and in \<open>pascalCase\<close>; before any unit that is not a lower-case
  letter, and at the end of the name, the hyphen stays. The runs below are \<^verbatim>\<open>"my-2nd"\<close>,
  which keeps its hyphen, and \<^verbatim>\<open>"my-component"\<close>, which loses it.
\<close>

theorem hyphen_collapsed_only_before_lowercase:
  assumes "normalizeComponentName P xs = Inr rx"
  shows "(in_a_z d \<longrightarrow>
            normalizeComponentName P (xs @ hyphen # d # ys) =
              Inr \<lparr>camelCase = camelCase rx @ upper_unit d # replaceKebab P ys,
                   pascalCase = pascalCase rx @ upper_unit d # replaceKebab P ys\<rparr>)
         \<and> (in_0_9 d \<or> in_A_Z d \<longrightarrow>
            normalizeComponentName P (xs @ hyphen # d # ys) =
              Inr \<lparr>camelCase = camelCase rx @ hyphen # d # replaceKebab P ys,
                   pascalCase = pascalCase rx @ hyphen # d # replaceKebab P ys\<rparr>)
         \<and> (\<not> in_a_z d \<longrightarrow>
            normalizeComponentName P (xs @ hyphen # d # ys) =
              Inr \<lparr>camelCase = camelCase rx @ hyphen # replaceKebab P (d # ys),
                   pascalCase = pascalCase rx @ hyphen # replaceKebab P (d # ys)\<rparr>)
         \<and> normalizeComponentName P (xs @ [hyphen]) =
              Inr \<lparr>camelCase = camelCase rx @ [hyphen], pascalCase = pascalCase rx @ [hyphen]\<rparr>"
proof -
  have n: "normalizeComponentName P (xs @ hyphen # s) =
             Inr \<lparr>camelCase = camelCase rx @ replaceKebab P (hyphen # s),
                  pascalCase = pascalCase rx @ replaceKebab P (hyphen # s)\<rparr>" for s
    using normalize_append [OF assms, of hyphen s] not_in_a_z_hyphen by simp
  have 1: "in_a_z d \<Longrightarrow> replaceKebab P (hyphen # d # ys) = upper_unit d # replaceKebab P ys"
    by (rule replaceKebab_match)
  have 3: "\<not> in_a_z d \<Longrightarrow> replaceKebab P (hyphen # d # ys) = hyphen # replaceKebab P (d # ys)"
    by (rule replaceKebab_keep)
  have 2: "in_0_9 d \<or> in_A_Z d \<Longrightarrow> replaceKebab P (hyphen # d # ys) = hyphen # d # replaceKebab P ys"
    using 3 in_0_9_not_a_z [of d] in_A_Z_not_a_z [of d] in_0_9_not_hyphen [of d] in_A_Z_not_hyphen [of d]
      replaceKebab_copy [of d P ys] by auto
  have 4: "replaceKebab P [hyphen] = [hyphen]" by simp
  show ?thesis
    using n [of "d # ys"] n [of "[]"] 1 2 3 by (simp only: 4 simp_thms) blast
qed

theorem hyphen_collapsed_only_before_lowercase_witness:
  "normalizeComponentName posix (str ''my'') =
     Inr \<lparr>camelCase = str ''my'', pascalCase = str ''My''\<rparr>
   \<and> in_0_9 (of_char CHR ''2'') \<and> \<not> in_a_z (of_char CHR ''2'')
   \<and> normalizeComponentName posix (str ''my-2nd'') =
     Inr \<lparr>camelCase = str ''my-2nd'', pascalCase = str ''My-2nd''\<rparr>
   \<and> in_a_z (of_char CHR ''c'')
   \<and> normalizeComponentName posix (str ''my-component'') =
     Inr \<lparr>camelCase = str ''myComponent'', pascalCase = str ''MyComponent''\<rparr>"
proof -
  have m: "normalizeComponentName posix (str ''my'') =
     Inr \<lparr>camelCase = str ''my'', pascalCase = str ''My''\<rparr>"
    by (simp add: normalizeComponentName_def str_def toUpperCase_def toLowerCase_def
        is_ascii_def upper_unit_def lower_unit_def in_a_z_def in_A_Z_def hyphen_def)
  have d: "in_0_9 (of_char CHR ''2'')" "\<not> in_a_z (of_char CHR ''2'')"
    by (simp_all add: in_0_9_def in_a_z_def)
  have c: "in_a_z (of_char CHR ''c'')" by (simp add: in_a_z_def)
  have k: "replaceKebab posix (str ''nd'') = str ''nd''"
          "replaceKebab posix (str ''omponent'') = str ''omponent''"
    by (simp_all add: str_def hyphen_def)
  have u: "upper_unit (of_char CHR ''c'') = of_char CHR ''C''"
    by (simp add: upper_unit_def in_a_z_def)
  have s: "str ''my'' @ hyphen # of_char CHR ''2'' # str ''nd'' = str ''my-2nd''"
          "str ''My'' @ hyphen # of_char CHR ''2'' # str ''nd'' = str ''My-2nd''"
          "str ''my'' @ hyphen # of_char CHR ''c'' # str ''omponent'' = str ''my-component''"
          "str ''my'' @ of_char CHR ''C'' # str ''omponent'' = str ''myComponent''"
          "str ''My'' @ of_char CHR ''C'' # str ''omponent'' = str ''MyComponent''"
    by (simp_all add: str_def hyphen_def)
  from hyphen_collapsed_only_before_lowercase [OF m, of "of_char CHR ''2''" "str ''nd''"] d
  have "normalizeComponentName posix (str ''my'' @ hyphen # of_char CHR ''2'' # str ''nd'') =
          Inr \<lparr>camelCase = str ''my'' @ hyphen # of_char CHR ''2'' # str ''nd'',
               pascalCase = str ''My'' @ hyphen # of_char CHR ''2'' # str ''nd''\<rparr>"
    by (simp only: normalized.select_convs k simp_thms)
  then have a: "normalizeComponentName posix (str ''my-2nd'') =
          Inr \<lparr>camelCase = str ''my-2nd'', pascalCase = str ''My-2nd''\<rparr>"
    by (simp only: s)
  from hyphen_collapsed_only_before_lowercase [OF m, of "of_char CHR ''c''" "str ''omponent''"] c
  have "normalizeComponentName posix (str ''my'' @ hyphen # of_char CHR ''c'' # str ''omponent'') =
          Inr \<lparr>camelCase = str ''my'' @ of_char CHR ''C'' # str ''omponent'',
               pascalCase = str ''My'' @ of_char CHR ''C'' # str ''omponent''\<rparr>"
    by (simp only: normalized.select_convs k u simp_thms)
  then have b: "normalizeComponentName posix (str ''my-component'') =
          Inr \<lparr>camelCase = str ''myComponent'', pascalCase = str ''MyComponent''\<rparr>"
    by (simp only: s)
  from m d c a b show ?thesis by (simp only: simp_thms)
qed

text \<open>
  Claim C8. \<open>normalizeComponentName\<close> returns a result for every non-empty string, and for
  the empty string it throws: the first character of the empty \<open>camelCase\<close> is
  \<^verbatim>\<open>undefined\<close>, and calling \<^verbatim>\<open>toUpperCase\<close> on it is a \<^verbatim>\<open>TypeError\<close>.
\<close>

theorem normalizeComponentName_total_on_nonempty:
  "(name \<noteq> [] \<longrightarrow> (\<exists>r. normalizeComponentName P name = Inr r))
   \<and> normalizeComponentName P [] = Inl undefined_toUpperCase"
  using normalize_nonempty [of name P] normalize_Nil [of P] by auto

theorem normalizeComponentName_total_on_nonempty_witness:
  "str ''x'' \<noteq> []
   \<and> (\<exists>r. normalizeComponentName posix (str ''x'') = Inr r)
   \<and> normalizeComponentName posix [] = Inl undefined_toUpperCase"
  using normalizeComponentName_total_on_nonempty [of "str ''x''" posix]
  by (simp add: str_def)

section \<open>File system calls\<close>

lemma labels_distinct:
  "str ''JS'' \<noteq> str ''HTML''" "str ''JS'' \<noteq> str ''CSS''" "str ''HTML'' \<noteq> str ''CSS''"
  "str ''HTML'' \<noteq> str ''JS''" "str ''CSS'' \<noteq> str ''JS''" "str ''CSS'' \<noteq> str ''HTML''"
  by (simp_all add: str_def)

lemma offered_iff:
  "offered file \<longleftrightarrow> label file = str ''JS'' \<or> label file = str ''HTML'' \<or> label file = str ''CSS''"
  by (auto simp add: offered_def quickPickItems_def)

lemma toLowerCase_labels:
  "toLowerCase P (str ''JS'') = str ''js''"
  "toLowerCase P (str ''HTML'') = str ''html''"
  "toLowerCase P (str ''CSS'') = str ''css''"
  by (simp_all add: toLowerCase_def str_def is_ascii_def lower_unit_def in_A_Z_def)

lemma createFile_offered:
  "offered file \<Longrightarrow>
   createFile P dir camel pascal file w =
     writeFileSync (filePathOf P dir camel file) (contentOf pascal file) w"
  by (auto simp add: offered_iff createFile_def filePathOf_def contentOf_def Let_def labels_distinct)

lemma createFile_not_offered:
  "\<not> offered file \<Longrightarrow> createFile P dir camel pascal file w = (Normal, w)"
  by (simp add: offered_iff createFile_def Let_def)

lemma extends_refl: "extends w [] w"
  by (simp add: extends_def)

lemma extends_trans: "extends w xs w1 \<Longrightarrow> extends w1 ys w2 \<Longrightarrow> extends w (xs @ ys) w2"
  by (simp add: extends_def)

lemma mkdirSync_cases:
  "(\<exists>e. mkdirSync p w = (Throw e, w))
   \<or> (mkdirSync p w = (Normal, w\<lparr>nodes := (nodes w)(p \<mapsto> Dir), trace := trace w @ [MkdirSync p]\<rparr>)
      \<and> nodes w p = None \<and> refuses w (nodes w) (MkdirSync p) = None)"
  by (cases "refuses w (nodes w) (MkdirSync p)"; cases "nodes w p") (simp_all add: mkdirSync_def)

lemma writeFileSync_cases:
  "(\<exists>e. writeFileSync p d w = (Throw e, w))
   \<or> (writeFileSync p d w =
       (Normal, w\<lparr>nodes := (nodes w)(p \<mapsto> File d), trace := trace w @ [WriteFileSync p d]\<rparr>)
      \<and> nodes w p \<noteq> Some Dir \<and> refuses w (nodes w) (WriteFileSync p d) = None)"
proof (cases "refuses w (nodes w) (WriteFileSync p d)")
  case None
  then show ?thesis
    by (cases "nodes w p") (auto simp add: writeFileSync_def split: node.splits)
next
  case (Some m)
  then show ?thesis by (simp add: writeFileSync_def)
qed

lemma writeFileSync_ok:
  "refuses w (nodes w) (WriteFileSync p d) = None \<Longrightarrow> nodes w p \<noteq> Some Dir \<Longrightarrow>
   writeFileSync p d w =
     (Normal, w\<lparr>nodes := (nodes w)(p \<mapsto> File d), trace := trace w @ [WriteFileSync p d]\<rparr>)"
  by (auto simp add: writeFileSync_def split: option.splits node.splits)

lemma ensureDir_cases:
  "(\<exists>e. (if existsSync w dir then (Normal, w) else mkdirSync dir w) = (Throw e, w))
   \<or> ((if existsSync w dir then (Normal, w) else mkdirSync dir w) = (Normal, w)
       \<and> nodes w dir \<noteq> None)
   \<or> ((if existsSync w dir then (Normal, w) else mkdirSync dir w) =
         (Normal, w\<lparr>nodes := (nodes w)(dir \<mapsto> Dir), trace := trace w @ [MkdirSync dir]\<rparr>)
       \<and> nodes w dir = None \<and> refuses w (nodes w) (MkdirSync dir) = None)"
  using mkdirSync_cases [of dir w] by (auto simp add: existsSync_def)

lemma createFile_extends:
  "createFile P dir camel pascal file w = (c, w') \<Longrightarrow>
   \<exists>evs. extends w evs w' \<and> list_all (\<lambda>e. \<not> isNotification e) evs"
proof (cases "offered file")
  case False
  assume "createFile P dir camel pascal file w = (c, w')"
  with False have "w' = w" by (simp add: createFile_not_offered)
  then show ?thesis using extends_refl by fastforce
next
  case True
  assume r: "createFile P dir camel pascal file w = (c, w')"
  from writeFileSync_cases [of "filePathOf P dir camel file" "contentOf pascal file" w]
  show ?thesis
  proof
    assume "\<exists>e. writeFileSync (filePathOf P dir camel file) (contentOf pascal file) w = (Throw e, w)"
    with r True have "w' = w" by (auto simp add: createFile_offered)
    then show ?thesis using extends_refl by fastforce
  next
    assume "writeFileSync (filePathOf P dir camel file) (contentOf pascal file) w =
       (Normal, w\<lparr>nodes := (nodes w)(filePathOf P dir camel file \<mapsto> File (contentOf pascal file)),
                   trace := trace w @ [WriteFileSync (filePathOf P dir camel file) (contentOf pascal file)]\<rparr>)
      \<and> nodes w (filePathOf P dir camel file) \<noteq> Some Dir
      \<and> refuses w (nodes w) (WriteFileSync (filePathOf P dir camel file) (contentOf pascal file)) = None"
    with r True have "extends w [WriteFileSync (filePathOf P dir camel file) (contentOf pascal file)] w'"
      by (auto simp add: createFile_offered extends_def)
    then show ?thesis by fastforce
  qed
qed

lemma forEach_extends:
  "forEach (createFile P dir camel pascal) files w = (c, w') \<Longrightarrow>
   \<exists>evs. extends w evs w' \<and> list_all (\<lambda>e. \<not> isNotification e) evs"
proof (induction files arbitrary: w)
  case Nil
  then show ?case using extends_refl by fastforce
next
  case (Cons f files)
  obtain c1 w1 where f: "createFile P dir camel pascal f w = (c1, w1)" by fastforce
  from createFile_extends [OF f] obtain xs where
    xs: "extends w xs w1" "list_all (\<lambda>e. \<not> isNotification e) xs" by blast
  show ?case
  proof (cases c1)
    case Normal
    with Cons.prems f have "forEach (createFile P dir camel pascal) files w1 = (c, w')"
      by (simp add: andThen_def)
    from Cons.IH [OF this] obtain ys where
      ys: "extends w1 ys w'" "list_all (\<lambda>e. \<not> isNotification e) ys" by blast
    from xs ys have "extends w (xs @ ys) w' \<and> list_all (\<lambda>e. \<not> isNotification e) (xs @ ys)"
      by (simp add: extends_trans)
    then show ?thesis by blast
  next
    case (Throw e)
    with Cons.prems f have "w' = w1" by (simp add: andThen_def)
    with xs show ?thesis by blast
  qed
qed

lemma forEach_single: "forEach f [x] w = f x w"
proof (cases "f x w")
  case (Pair c w1)
  then show ?thesis by (cases c) (simp_all add: andThen_def)
qed

lemma forEach_writes:
  assumes "refuses w = (\<lambda>ns ev. None)" "list_all offered files"
    "list_all (\<lambda>f. nodes w (filePathOf P dir camel f) \<noteq> Some Dir) files"
  shows "\<exists>w'. forEach (createFile P dir camel pascal) files w = (Normal, w')
           \<and> extends w (map (writeOf P dir camel pascal) files) w'"
  using assms
proof (induction files arbitrary: w)
  case Nil
  then show ?case by (simp add: extends_refl)
next
  case (Cons f files)
  let ?w1 = "w\<lparr>nodes := (nodes w)(filePathOf P dir camel f \<mapsto> File (contentOf pascal f)),
               trace := trace w @ [writeOf P dir camel pascal f]\<rparr>"
  have f: "createFile P dir camel pascal f w = (Normal, ?w1)"
    using Cons.prems by (simp add: createFile_offered writeFileSync_ok writeOf_def)
  have e1: "extends w [writeOf P dir camel pascal f] ?w1"
    by (simp add: extends_def writeOf_def)
  have "\<exists>w'. forEach (createFile P dir camel pascal) files ?w1 = (Normal, w')
           \<and> extends ?w1 (map (writeOf P dir camel pascal) files) w'"
  proof (rule Cons.IH)
    show "refuses ?w1 = (\<lambda>ns ev. None)" using Cons.prems(1) by simp
    show "list_all offered files" using Cons.prems(2) by simp
    show "list_all (\<lambda>g. nodes ?w1 (filePathOf P dir camel g) \<noteq> Some Dir) files"
      using Cons.prems(3) by (simp add: list_all_iff)
  qed
  then obtain w' where w': "forEach (createFile P dir camel pascal) files ?w1 = (Normal, w')"
    "extends ?w1 (map (writeOf P dir camel pascal) files) w'" by blast
  from extends_trans [OF e1 w'(2)] w'(1) f show ?case by (simp add: andThen_def)
qed

lemma effect_writeOf:
  "effect (writeOf P dir camel pascal f) m = m(filePathOf P dir camel f \<mapsto> File (contentOf pascal f))"
  by (simp add: writeOf_def)

lemma foldl_effect_other:
  "p \<notin> set (map (filePathOf P dir camel) files) \<Longrightarrow>
   foldl (\<lambda>m e. effect e m) m0 (map (writeOf P dir camel pascal) files) p = m0 p"
  by (induction files arbitrary: m0) (auto simp add: effect_writeOf)

lemma foldl_effect_written:
  "distinct (map (filePathOf P dir camel) files) \<Longrightarrow> f \<in> set files \<Longrightarrow>
   foldl (\<lambda>m e. effect e m) m0 (map (writeOf P dir camel pascal) files) (filePathOf P dir camel f)
     = Some (File (contentOf pascal f))"
proof (induction files arbitrary: m0)
  case Nil
  then show ?case by simp
next
  case (Cons g files)
  show ?case
  proof (cases "f \<in> set files")
    case True
    with Cons show ?thesis by simp
  next
    case False
    with Cons.prems have fg: "f = g" by simp
    from Cons.prems(1) have "filePathOf P dir camel g \<notin> set (map (filePathOf P dir camel) files)"
      by simp
    from foldl_effect_other [OF this, of "effect (writeOf P dir camel pascal g) m0" pascal]
    show ?thesis by (simp add: fg effect_writeOf)
  qed
qed

section \<open>Runs of the handler\<close>

lemma tryBlock_selected:
  assumes "targetDirOf P i = Some targetDir" "inputBox i = Some rawName"
    "normalizeComponentName P rawName = Inr n" "quickPick i = Some files" "files \<noteq> []"
  shows "tryBlock P i w =
           andThen (if existsSync w (join P targetDir (camelCase n)) then (Normal, w)
                    else mkdirSync (join P targetDir (camelCase n)) w)
             (\<lambda>w1. andThen
                (forEach (createFile P (join P targetDir (camelCase n)) (camelCase n) (pascalCase n))
                   files w1)
                (showInformationMessage
                   (successMessage (camelCase n) (join P targetDir (camelCase n)))))"
proof -
  from assms(3) have "rawName \<noteq> []" by (auto simp add: normalize_Nil)
  with assms show ?thesis
    by (simp add: tryBlock_def Let_def successMessage_def)
qed

lemma tryBlock_early:
  assumes "\<not> (\<exists>targetDir rawName n files. targetDirOf P i = Some targetDir
             \<and> inputBox i = Some rawName \<and> normalizeComponentName P rawName = Inr n
             \<and> quickPick i = Some files \<and> files \<noteq> [])"
  shows "tryBlock P i w = (Throw e, w1) \<Longrightarrow> w1 = w"
  using assms
  by (auto simp add: tryBlock_def Let_def showErrorMessage_def
      split: option.splits if_splits sum.splits)

lemma tryBlock_throw:
  assumes t: "tryBlock P i w = (Throw e, w1)"
  shows "\<exists>evs. extends w evs w1 \<and> list_all (\<lambda>e. \<not> isNotification e) evs"
proof (cases "\<exists>targetDir rawName n files. targetDirOf P i = Some targetDir
             \<and> inputBox i = Some rawName \<and> normalizeComponentName P rawName = Inr n
             \<and> quickPick i = Some files \<and> files \<noteq> []")
  case False
  from tryBlock_early [OF False t] have "w1 = w" .
  then show ?thesis using extends_refl by fastforce
next
  case True
  then obtain targetDir rawName n files where
    h: "targetDirOf P i = Some targetDir" "inputBox i = Some rawName"
       "normalizeComponentName P rawName = Inr n" "quickPick i = Some files" "files \<noteq> []"
    by blast
  let ?dir = "join P targetDir (camelCase n)"
  let ?mk = "if existsSync w ?dir then (Normal, w) else mkdirSync ?dir w"
  note s = tryBlock_selected [OF h, of w]
  obtain c0 w0 where mk: "?mk = (c0, w0)" by fastforce
  have mk_ext: "\<exists>evs. extends w evs w0 \<and> list_all (\<lambda>e. \<not> isNotification e) evs"
  proof (cases "existsSync w ?dir")
    case True
    with mk have "w0 = w" by simp
    then show ?thesis using extends_refl by fastforce
  next
    case False
    with mk have m: "mkdirSync ?dir w = (c0, w0)" by simp
    from mkdirSync_cases [of ?dir w] show ?thesis
    proof
      assume "\<exists>e. mkdirSync ?dir w = (Throw e, w)"
      with m have "w0 = w" by auto
      then show ?thesis using extends_refl by fastforce
    next
      assume "mkdirSync ?dir w =
          (Normal, w\<lparr>nodes := (nodes w)(?dir \<mapsto> Dir), trace := trace w @ [MkdirSync ?dir]\<rparr>)
          \<and> nodes w ?dir = None \<and> refuses w (nodes w) (MkdirSync ?dir) = None"
      with m have "extends w [MkdirSync ?dir] w0" by (auto simp add: extends_def)
      then show ?thesis by fastforce
    qed
  qed
  then obtain xs where xs: "extends w xs w0" "list_all (\<lambda>e. \<not> isNotification e) xs" by blast
  show ?thesis
  proof (cases c0)
    case (Throw e0)
    with s mk t have "w1 = w0" by (simp add: andThen_def)
    with xs show ?thesis by blast
  next
    case Normal
    obtain c2 w2 where fe: "forEach (createFile P ?dir (camelCase n) (pascalCase n)) files w0 = (c2, w2)"
      by fastforce
    from forEach_extends [OF fe] obtain ys where
      ys: "extends w0 ys w2" "list_all (\<lambda>e. \<not> isNotification e) ys" by blast
    from s mk t Normal fe have "w1 = w2"
      by (cases c2) (simp_all add: andThen_def showInformationMessage_def)
    with xs ys have "extends w (xs @ ys) w1 \<and> list_all (\<lambda>e. \<not> isNotification e) (xs @ ys)"
      by (simp add: extends_trans)
    then show ?thesis by blast
  qed
qed

lemma tryBlock_returns_early:
  assumes "targetDirOf P i = Some targetDir"
    and "inputBox i = None \<or> quickPick i = None \<or> quickPick i = Some []"
  shows "tryBlock P i w = (Normal, w)"
proof (cases "inputBox i")
  case None
  with assms(1) show ?thesis by (simp add: tryBlock_def)
next
  case (Some rawName)
  show ?thesis
  proof (cases "rawName = []")
    case True
    with Some assms(1) show ?thesis by (simp add: tryBlock_def)
  next
    case False
    from normalize_nonempty [OF False, of P] obtain n where
      "normalizeComponentName P rawName = Inr n" by blast
    with Some False assms show ?thesis by (auto simp add: tryBlock_def Let_def)
  qed
qed

lemma demo_target: "targetDirOf posix (demo name selection) = Some (str ''/ws'')"
  by (simp add: targetDirOf_def demo_def truthy_def str_def)

lemma demo_fields:
  "inputBox (demo name selection) = name" "quickPick (demo name selection) = selection"
  by (simp_all add: demo_def)

lemma normalize_x:
  "normalizeComponentName posix (str ''x'') = Inr \<lparr>camelCase = str ''x'', pascalCase = str ''X''\<rparr>"
  by (simp add: normalizeComponentName_def str_def toUpperCase_def toLowerCase_def
        is_ascii_def upper_unit_def lower_unit_def in_a_z_def in_A_Z_def hyphen_def)

lemma posix_join: "join posix a b = a @ str ''/'' @ b"
  by (simp add: posix_def)

lemma x_paths:
  "join posix (str ''/ws'') (str ''x'') = str ''/ws/x''"
  "join posix (str ''/ws/x'') (str ''x'' @ str ''.html'') = str ''/ws/x/x.html''"
  by (simp_all add: posix_join str_def)

text \<open>
  Claim C3. With only the item "HTML" selected, every run of the handler is one of four:
  an error notification alone, a new directory and an error notification, or the single write
  of \<^verbatim>\<open><camelCase>.html\<close> in the component directory, with the template
  \<^verbatim>\<open><template>\n\n</template>\<close> as its content, after the directory was made if it was
  missing and before the final notification. No other file is written in any of them. When the
  file system raises no error, the run is the one with the write, and the path holds the
  template afterwards.
\<close>

theorem only_html_selected:
  assumes "targetDirOf P i = Some targetDir" "inputBox i = Some rawName"
    and "normalizeComponentName P rawName = Inr n"
    and "quickPick i = Some [file]" "label file = str ''HTML''"
    and "dir = join P targetDir (camelCase n)"
    and "path = join P dir (camelCase n @ str ''.html'')"
    and "info = ShowInformationMessage (successMessage (camelCase n) dir)"
    and "createLWC P i w = (c, w')"
  shows "((\<exists>m. extends w [ShowErrorMessage m] w')
          \<or> (\<exists>m. extends w [MkdirSync dir, ShowErrorMessage m] w')
          \<or> extends w [WriteFileSync path htmlTemplate, info] w'
          \<or> extends w [MkdirSync dir, WriteFileSync path htmlTemplate, info] w')
         \<and> (refuses w = (\<lambda>ns ev. None) \<and> nodes w path \<noteq> Some Dir \<and> path \<noteq> dir \<longrightarrow>
              extends w ((if existsSync w dir then [] else [MkdirSync dir])
                         @ [WriteFileSync path htmlTemplate, info]) w'
              \<and> nodes w' path = Some (File htmlTemplate))"
proof -
  have o: "offered file" using assms(5) by (simp add: offered_iff)
  have p: "filePathOf P dir (camelCase n) file = path"
    using assms(5,7) by (simp add: filePathOf_def toLowerCase_labels) (simp add: str_def)
  have ct: "contentOf (pascalCase n) file = htmlTemplate"
    using assms(5) by (simp add: contentOf_def labels_distinct)
  have cf: "createFile P dir (camelCase n) (pascalCase n) file v = writeFileSync path htmlTemplate v" for v
    by (simp add: createFile_offered [OF o] p ct)
  let ?mk = "if existsSync w dir then (Normal, w) else mkdirSync dir w"
  let ?wr = "WriteFileSync path htmlTemplate"
  have t: "tryBlock P i w =
      andThen ?mk (\<lambda>w1. andThen (writeFileSync path htmlTemplate w1)
                          (showInformationMessage (successMessage (camelCase n) dir)))"
    using tryBlock_selected [OF assms(1-4), of w, folded assms(6)]
    by (simp only: forEach_single cf) simp
  have err: "tryBlock P i w = (Throw e, v) \<Longrightarrow> createLWC P i w = (c, w') \<Longrightarrow>
             w' = v\<lparr>trace := trace v @ [ShowErrorMessage (str ''Error creating LWC: '' @ message e)]\<rparr>"
    for e v by (simp add: createLWC_def showErrorMessage_def)
  have ok: "tryBlock P i w = (Normal, v) \<Longrightarrow> createLWC P i w = (c, w') \<Longrightarrow> w' = v"
    for v by (simp add: createLWC_def)
  have wr: "(\<exists>e. writeFileSync path htmlTemplate v = (Throw e, v))
      \<or> (writeFileSync path htmlTemplate v =
            (Normal, v\<lparr>nodes := (nodes v)(path \<mapsto> File htmlTemplate), trace := trace v @ [?wr]\<rparr>)
          \<and> nodes v path \<noteq> Some Dir \<and> refuses v (nodes v) ?wr = None)" for v
    by (rule writeFileSync_cases)
  let ?made = "w\<lparr>nodes := (nodes w)(dir \<mapsto> Dir), trace := trace w @ [MkdirSync dir]\<rparr>"
  from ensureDir_cases [of w dir]
  consider (mkfail) e where "?mk = (Throw e, w)"
    | (exists) "?mk = (Normal, w)" "nodes w dir \<noteq> None"
    | (made) "?mk = (Normal, ?made)" "nodes w dir = None" "refuses w (nodes w) (MkdirSync dir) = None"
    by (elim disjE exE conjE) fast+
  then show ?thesis
  proof cases
    case (mkfail e)
    then have "tryBlock P i w = (Throw e, w)" by (simp add: t andThen_def)
    from err [OF this assms(9)] have a: "\<exists>m. extends w [ShowErrorMessage m] w'"
      by (auto simp add: extends_def)
    from mkfail have "refuses w \<noteq> (\<lambda>ns ev. None)"
      by (auto simp add: existsSync_def mkdirSync_def split: if_splits option.splits)
    with a show ?thesis by blast
  next
    case exists
    from wr [of w] show ?thesis
    proof (elim disjE exE conjE)
      fix e assume "writeFileSync path htmlTemplate w = (Throw e, w)"
      with exists have th: "tryBlock P i w = (Throw e, w)" by (simp add: t andThen_def)
      from err [OF this assms(9)] have a: "\<exists>m. extends w [ShowErrorMessage m] w'"
        by (auto simp add: extends_def)
      from \<open>writeFileSync path htmlTemplate w = (Throw e, w)\<close>
      have "\<not> (refuses w = (\<lambda>ns ev. None) \<and> nodes w path \<noteq> Some Dir)"
        by (auto simp add: writeFileSync_def split: option.splits node.splits)
      with a show ?thesis by blast
    next
      assume "writeFileSync path htmlTemplate w =
            (Normal, w\<lparr>nodes := (nodes w)(path \<mapsto> File htmlTemplate), trace := trace w @ [?wr]\<rparr>)"
      with exists have "tryBlock P i w =
          (Normal, w\<lparr>nodes := (nodes w)(path \<mapsto> File htmlTemplate),
                      trace := trace w @ [?wr, info]\<rparr>)"
        by (simp add: t andThen_def showInformationMessage_def assms(8))
      from ok [OF this assms(9)] have "extends w [?wr, info] w'" "nodes w' path = Some (File htmlTemplate)"
        by (simp_all add: extends_def assms(8))
      with exists show ?thesis by (simp add: existsSync_def)
    qed
  next
    case made
    from wr [of ?made] show ?thesis
    proof (elim disjE exE conjE)
      fix e assume f: "writeFileSync path htmlTemplate ?made = (Throw e, ?made)"
      with made have th: "tryBlock P i w = (Throw e, ?made)" by (simp add: t andThen_def)
      from err [OF this assms(9)] have a: "\<exists>m. extends w [MkdirSync dir, ShowErrorMessage m] w'"
        by (auto simp add: extends_def)
      from f have "\<not> (refuses w = (\<lambda>ns ev. None) \<and> nodes w path \<noteq> Some Dir \<and> path \<noteq> dir)"
        by (auto simp add: writeFileSync_def split: option.splits node.splits if_splits)
      with a show ?thesis by blast
    next
      assume "writeFileSync path htmlTemplate ?made =
            (Normal, ?made\<lparr>nodes := (nodes ?made)(path \<mapsto> File htmlTemplate),
                             trace := trace ?made @ [?wr]\<rparr>)"
      with made have "tryBlock P i w =
          (Normal, w\<lparr>nodes := (nodes w)(dir \<mapsto> Dir, path \<mapsto> File htmlTemplate),
                      trace := trace w @ [MkdirSync dir, ?wr, info]\<rparr>)"
        by (simp add: t andThen_def showInformationMessage_def assms(8))
      from ok [OF this assms(9)] have "extends w [MkdirSync dir, ?wr, info] w'"
        "nodes w' path = Some (File htmlTemplate)"
        by (simp_all add: extends_def assms(8))
      with made show ?thesis by (simp add: existsSync_def)
    qed
  qed
qed

theorem only_html_selected_witness:
  "targetDirOf posix (demo (Some (str ''x'')) (Some [htmlItem])) = Some (str ''/ws'')
   \<and> normalizeComponentName posix (str ''x'') = Inr \<lparr>camelCase = str ''x'', pascalCase = str ''X''\<rparr>
   \<and> label htmlItem = str ''HTML''
   \<and> extends emptyDisk
        [MkdirSync (str ''/ws/x''), WriteFileSync (str ''/ws/x/x.html'') htmlTemplate,
         ShowInformationMessage (successMessage (str ''x'') (str ''/ws/x''))]
        (snd (createLWC posix (demo (Some (str ''x'')) (Some [htmlItem])) emptyDisk))
   \<and> nodes (snd (createLWC posix (demo (Some (str ''x'')) (Some [htmlItem])) emptyDisk))
        (str ''/ws/x/x.html'') = Some (File htmlTemplate)"
proof -
  let ?i = "demo (Some (str ''x'')) (Some [htmlItem])"
  have l: "label htmlItem = str ''HTML''" by (simp add: htmlItem_def)
  have r: "createLWC posix ?i emptyDisk = (fst (createLWC posix ?i emptyDisk), snd (createLWC posix ?i emptyDisk))"
    by simp
  have d: "str ''/ws/x'' = join posix (str ''/ws'') (camelCase \<lparr>camelCase = str ''x'', pascalCase = str ''X''\<rparr>)"
    by (simp add: x_paths)
  have p: "str ''/ws/x/x.html'' =
             join posix (str ''/ws/x'') (camelCase \<lparr>camelCase = str ''x'', pascalCase = str ''X''\<rparr> @ str ''.html'')"
    by (simp add: x_paths)
  have c: "refuses emptyDisk = (\<lambda>ns ev. None) \<and> nodes emptyDisk (str ''/ws/x/x.html'') \<noteq> Some Dir
           \<and> str ''/ws/x/x.html'' \<noteq> str ''/ws/x''"
    by (simp add: emptyDisk_def str_def)
  have e: "\<not> existsSync emptyDisk (str ''/ws/x'')"
    by (simp add: existsSync_def emptyDisk_def)
  from only_html_selected [OF demo_target demo_fields(1) normalize_x demo_fields(2) l d p refl r] c e
  show ?thesis using demo_target normalize_x l by simp
qed

text \<open>
  Claim C4. When a target directory was found, so that the prompts are shown, and the user
  dismisses the name prompt or the file-type prompt, the handler returns normally and the
  world is the one it started in: no directory, no file, no notification.
\<close>

theorem dismissed_prompt_is_silent:
  assumes "targetDirOf P i = Some targetDir"
    and "inputBox i = None \<or> quickPick i = None"
  shows "createLWC P i w = (Normal, w)"
  using tryBlock_returns_early [of P i targetDir w] assms by (auto simp add: createLWC_def)

theorem dismissed_prompt_is_silent_witness:
  "targetDirOf posix (demo None None) = Some (str ''/ws'')
   \<and> inputBox (demo None None) = None
   \<and> createLWC posix (demo None None) emptyDisk = (Normal, emptyDisk)
   \<and> quickPick (demo (Some (str ''x'')) None) = None
   \<and> createLWC posix (demo (Some (str ''x'')) None) usedDisk = (Normal, usedDisk)"
  using dismissed_prompt_is_silent [OF demo_target, of None None emptyDisk]
    dismissed_prompt_is_silent [OF demo_target, of "Some (str ''x'')" None usedDisk]
    demo_target [of None None]
  by (simp add: demo_fields)

text \<open>
  Claim C5. The handler always completes normally: nothing is thrown past it. When the
  \<^verbatim>\<open>try\<close> block throws \<open>e\<close> in the world \<open>w1\<close>, the handler ends in \<open>w1\<close> with one more
  event, the error notification that carries the message of \<open>e\<close>: no call is made again and
  nothing made before the error is taken back. Up to the error the block has shown no
  notification, and \<open>w1\<close> holds every directory and file made so far.
\<close>

theorem errors_caught_and_reported:
  "fst (createLWC P i w) = Normal
   \<and> (tryBlock P i w = (Throw e, w1) \<longrightarrow>
        createLWC P i w =
          (Normal, w1\<lparr>trace := trace w1 @ [ShowErrorMessage (str ''Error creating LWC: '' @ message e)]\<rparr>)
        \<and> (\<exists>evs. extends w evs w1 \<and> list_all (\<lambda>e. \<not> isNotification e) evs))"
proof (intro conjI impI)
  show "fst (createLWC P i w) = Normal"
    by (simp add: createLWC_def showErrorMessage_def split: prod.splits completion.splits)
next
  assume "tryBlock P i w = (Throw e, w1)"
  then show "createLWC P i w =
          (Normal, w1\<lparr>trace := trace w1 @ [ShowErrorMessage (str ''Error creating LWC: '' @ message e)]\<rparr>)"
    by (simp add: createLWC_def showErrorMessage_def)
next
  assume "tryBlock P i w = (Throw e, w1)"
  then show "\<exists>evs. extends w evs w1 \<and> list_all (\<lambda>e. \<not> isNotification e) evs"
    by (rule tryBlock_throw)
qed

theorem errors_caught_and_reported_witness:
  "tryBlock posix (demo (Some (str ''x'')) (Some [htmlItem])) lockedDisk =
     (Throw (SystemError (str ''EACCES: permission denied'')),
      lockedDisk\<lparr>nodes := [str ''/ws/x'' \<mapsto> Dir], trace := [MkdirSync (str ''/ws/x'')]\<rparr>)
   \<and> createLWC posix (demo (Some (str ''x'')) (Some [htmlItem])) lockedDisk =
     (Normal,
      lockedDisk\<lparr>nodes := [str ''/ws/x'' \<mapsto> Dir],
                 trace := [MkdirSync (str ''/ws/x''),
                           ShowErrorMessage (str ''Error creating LWC: EACCES: permission denied'')]\<rparr>)"
proof -
  let ?i = "demo (Some (str ''x'')) (Some [htmlItem])"
  let ?w1 = "lockedDisk\<lparr>nodes := [str ''/ws/x'' \<mapsto> Dir], trace := [MkdirSync (str ''/ws/x'')]\<rparr>"
  have m: "mkdirSync (str ''/ws/x'') lockedDisk = (Normal, ?w1)"
    by (simp add: mkdirSync_def lockedDisk_def)
  have f: "createFile posix (str ''/ws/x'') (str ''x'') (str ''X'') htmlItem ?w1 =
             (Throw (SystemError (str ''EACCES: permission denied'')), ?w1)"
    by (simp add: createFile_def htmlItem_def labels_distinct writeFileSync_def lockedDisk_def)
  have t: "tryBlock posix ?i lockedDisk =
             (Throw (SystemError (str ''EACCES: permission denied'')), ?w1)"
    using tryBlock_selected [OF demo_target demo_fields(1) normalize_x demo_fields(2), of "[htmlItem]" lockedDisk]
    by (simp add: x_paths existsSync_def m f forEach_single andThen_def) (simp add: lockedDisk_def)
  have s: "str ''Error creating LWC: '' @ str ''EACCES: permission denied'' =
           str ''Error creating LWC: EACCES: permission denied''"
    by (simp add: str_def)
  from errors_caught_and_reported [of posix ?i lockedDisk
      "SystemError (str ''EACCES: permission denied'')" ?w1] t
  show ?thesis by (simp add: s)
qed

text \<open>
  Claim C9. Confirming the file-type prompt with nothing selected ends the handler as a
  dismissed prompt does: it returns normally, the world is unchanged, and the outcome is that
  of the same invocation with the prompt dismissed.
\<close>

theorem empty_selection_is_silent:
  assumes "targetDirOf P i = Some targetDir" and "quickPick i = Some []"
  shows "createLWC P i w = (Normal, w)
         \<and> createLWC P i w = createLWC P (i\<lparr>quickPick := None\<rparr>) w"
proof -
  have "targetDirOf P (i\<lparr>quickPick := None\<rparr>) = targetDirOf P i"
    by (simp add: targetDirOf_def firstWorkspaceFolder_def)
  with assms(1) have t: "targetDirOf P (i\<lparr>quickPick := None\<rparr>) = Some targetDir" by simp
  have a: "createLWC P i w = (Normal, w)"
    using tryBlock_returns_early [of P i targetDir w] assms by (simp add: createLWC_def)
  have b: "createLWC P (i\<lparr>quickPick := None\<rparr>) w = (Normal, w)"
    using tryBlock_returns_early [of P "i\<lparr>quickPick := None\<rparr>" targetDir w] t
    by (simp add: createLWC_def)
  from a b show ?thesis by simp
qed

theorem empty_selection_is_silent_witness:
  "targetDirOf posix (demo (Some (str ''x'')) (Some [])) = Some (str ''/ws'')
   \<and> quickPick (demo (Some (str ''x'')) (Some [])) = Some []
   \<and> createLWC posix (demo (Some (str ''x'')) (Some [])) emptyDisk = (Normal, emptyDisk)"
  using empty_selection_is_silent [OF demo_target demo_fields(2), of "Some (str ''x'')" emptyDisk]
    demo_target [of "Some (str ''x'')" "Some []"]
  by (simp add: demo_fields)

text \<open>
  Claim C10. When the component directory exists already and the file system raises no error
  of its own, the handler makes no directory and shows no error: its events are one write for
  each selected item, in order, and the final notification. Each selected path, whether it
  held a file before or not, then holds that item's template, and the directory is still
  there. The run below overwrites an old \<^verbatim>\<open>x.html\<close>.
\<close>

theorem existing_directory_reused:
  assumes "targetDirOf P i = Some targetDir" "inputBox i = Some rawName"
    and "normalizeComponentName P rawName = Inr n"
    and "quickPick i = Some files" "files \<noteq> []" "list_all offered files"
    and "dir = join P targetDir (camelCase n)"
    and "nodes w dir = Some Dir"
    and "refuses w = (\<lambda>ns ev. None)"
    and "distinct (map (filePathOf P dir (camelCase n)) files)"
    and "list_all (\<lambda>f. nodes w (filePathOf P dir (camelCase n) f) \<noteq> Some Dir) files"
  shows "\<exists>w'. createLWC P i w = (Normal, w')
           \<and> extends w (map (writeOf P dir (camelCase n) (pascalCase n)) files
                         @ [ShowInformationMessage (successMessage (camelCase n) dir)]) w'
           \<and> list_all (\<lambda>f. nodes w' (filePathOf P dir (camelCase n) f)
                              = Some (File (contentOf (pascalCase n) f))) files
           \<and> nodes w' dir = Some Dir"
proof -
  let ?wrs = "map (writeOf P dir (camelCase n) (pascalCase n)) files"
  let ?info = "ShowInformationMessage (successMessage (camelCase n) dir)"
  from forEach_writes [OF assms(9) assms(6) assms(11), of "pascalCase n"] obtain w2 where
    w2: "forEach (createFile P dir (camelCase n) (pascalCase n)) files w = (Normal, w2)"
        "extends w ?wrs w2" by blast
  let ?w' = "w2\<lparr>trace := trace w2 @ [?info]\<rparr>"
  have t: "tryBlock P i w = (Normal, ?w')"
    using tryBlock_selected [OF assms(1-5), of w] assms(7,8) w2(1)
    by (simp add: existsSync_def andThen_def showInformationMessage_def)
  then have c: "createLWC P i w = (Normal, ?w')" by (simp add: createLWC_def)
  have e: "extends w (?wrs @ [?info]) ?w'"
    using w2(2) by (simp add: extends_def)
  have nodes: "nodes ?w' = foldl (\<lambda>m e. effect e m) (nodes w) ?wrs"
    using w2(2) by (simp add: extends_def)
  have files: "list_all (\<lambda>f. nodes ?w' (filePathOf P dir (camelCase n) f)
                              = Some (File (contentOf (pascalCase n) f))) files"
    unfolding nodes list_all_iff using foldl_effect_written [OF assms(10)] by blast
  have "dir \<notin> set (map (filePathOf P dir (camelCase n)) files)"
    using assms(8,11) by (auto simp add: list_all_iff)
  from foldl_effect_other [OF this, of "nodes w" "pascalCase n"] assms(8)
  have d: "nodes ?w' dir = Some Dir" unfolding nodes by simp
  from c e files d show ?thesis by blast
qed

theorem existing_directory_reused_witness:
  "list_all offered [jsItem, htmlItem]
   \<and> nodes usedDisk (str ''/ws/x'') = Some Dir
   \<and> nodes usedDisk (str ''/ws/x/x.html'') = Some (File (str ''old''))
   \<and> (\<exists>w'. createLWC posix (demo (Some (str ''x'')) (Some [jsItem, htmlItem])) usedDisk = (Normal, w')
         \<and> trace w' = [WriteFileSync (str ''/ws/x/x.js'') (jsTemplate (str ''X'')),
                        WriteFileSync (str ''/ws/x/x.html'') htmlTemplate,
                        ShowInformationMessage (successMessage (str ''x'') (str ''/ws/x''))]
         \<and> nodes w' (str ''/ws/x/x.js'') = Some (File (jsTemplate (str ''X'')))
         \<and> nodes w' (str ''/ws/x/x.html'') = Some (File htmlTemplate)
         \<and> nodes w' (str ''/ws/x'') = Some Dir)"
proof -
  let ?i = "demo (Some (str ''x'')) (Some [jsItem, htmlItem])"
  let ?n = "\<lparr>camelCase = str ''x'', pascalCase = str ''X''\<rparr>"
  have o: "list_all offered [jsItem, htmlItem]"
    by (simp add: offered_iff jsItem_def htmlItem_def)
  have d: "str ''/ws/x'' = join posix (str ''/ws'') (camelCase ?n)"
    by (simp add: x_paths)
  have pj: "filePathOf posix (str ''/ws/x'') (str ''x'') jsItem = str ''/ws/x/x.js''"
    by (simp add: filePathOf_def jsItem_def toLowerCase_labels posix_join) (simp add: str_def)
  have ph: "filePathOf posix (str ''/ws/x'') (str ''x'') htmlItem = str ''/ws/x/x.html''"
    by (simp add: filePathOf_def htmlItem_def toLowerCase_labels posix_join) (simp add: str_def)
  have ne: "str ''/ws/x/x.js'' \<noteq> str ''/ws/x/x.html''" "str ''/ws/x/x.js'' \<noteq> str ''/ws/x''"
    "str ''/ws/x/x.html'' \<noteq> str ''/ws/x''"
    by (simp_all add: str_def)
  have dir: "nodes usedDisk (str ''/ws/x'') = Some Dir"
    using ne by (simp add: usedDisk_def)
  have old: "nodes usedDisk (str ''/ws/x/x.html'') = Some (File (str ''old''))"
    by (simp add: usedDisk_def)
  have r: "refuses usedDisk = (\<lambda>ns ev. None)" by (simp add: usedDisk_def)
  have di: "distinct (map (filePathOf posix (str ''/ws/x'') (camelCase ?n)) [jsItem, htmlItem])"
    using ne by (simp add: pj ph)
  have nd: "list_all (\<lambda>f. nodes usedDisk (filePathOf posix (str ''/ws/x'') (camelCase ?n) f) \<noteq> Some Dir)
              [jsItem, htmlItem]"
    using ne by (simp add: pj ph usedDisk_def)
  have cj: "contentOf (str ''X'') jsItem = jsTemplate (str ''X'')"
    by (simp add: contentOf_def jsItem_def)
  have ch: "contentOf (str ''X'') htmlItem = htmlTemplate"
    by (simp add: contentOf_def htmlItem_def labels_distinct)
  from existing_directory_reused [OF demo_target demo_fields(1) normalize_x demo_fields(2) _ o d dir r di nd]
  obtain w' where w': "createLWC posix ?i usedDisk = (Normal, w')"
    "extends usedDisk (map (writeOf posix (str ''/ws/x'') (camelCase ?n) (pascalCase ?n)) [jsItem, htmlItem]
        @ [ShowInformationMessage (successMessage (camelCase ?n) (str ''/ws/x''))]) w'"
    "list_all (\<lambda>f. nodes w' (filePathOf posix (str ''/ws/x'') (camelCase ?n) f)
                              = Some (File (contentOf (pascalCase ?n) f))) [jsItem, htmlItem]"
    "nodes w' (str ''/ws/x'') = Some Dir"
    by auto
  have tr: "trace w' = [WriteFileSync (str ''/ws/x/x.js'') (jsTemplate (str ''X'')),
                        WriteFileSync (str ''/ws/x/x.html'') htmlTemplate,
                        ShowInformationMessage (successMessage (str ''x'') (str ''/ws/x''))]"
    using w'(2) by (simp add: extends_def writeOf_def pj ph cj ch usedDisk_def)
  from w'(3) have "nodes w' (str ''/ws/x/x.js'') = Some (File (jsTemplate (str ''X'')))"
    "nodes w' (str ''/ws/x/x.html'') = Some (File htmlTemplate)"
    by (simp_all add: pj ph cj ch)
  with o dir old w'(1,4) tr show ?thesis by simp
qed

end
